theory Spec2Isabelle
  imports Main "HOL-Library.Char_ord" "HOL-Library.List_Lexorder"
begin

section \<open>Python values\<close>

text \<open>
  The scraper passes certificate records around as \<^verbatim>\<open>Dict[str, Any]\<close> and reads its
  monitoring state from JSON. Both are built from the same few shapes of value, modelled
  by one datatype. A dictionary is an association list in insertion order, as Python
  keeps it. Floating-point numbers (costs, emissions) are not represented: none of the
  functions modelled below computes with them.

  A Python \<^verbatim>\<open>str\<close> is a \<^typ>\<open>string\<close>, one \<^typ>\<open>char\<close> for each code point, so
  the strings of the model are the Python strings whose code points are below 256. On
  these, \<^verbatim>\<open>isspace\<close>, \<^verbatim>\<open>upper\<close> and \<^verbatim>\<open>lower\<close> are modelled as Python computes them;
  upper-casing can leave the range, so its result is a list of code points. The order on
  strings is the lexicographic order on code points, which is the order Python's
  \<^verbatim>\<open>sorted\<close> uses on \<^verbatim>\<open>str\<close>.
\<close>

datatype pyval =
    PNone
  | PBool bool
  | PInt int
  | PStr string
  | PList "pyval list"
  | PDict "(string \<times> pyval) list"

type_synonym pydict = "(string \<times> pyval) list"

text \<open>The exceptions that the modelled functions can let escape.\<close>

datatype py_error = TypeError | IndexError | OSError

text \<open>Truth value testing, as \<^verbatim>\<open>if x\<close> and \<^verbatim>\<open>not x\<close> do it.\<close>

fun py_truthy :: "pyval \<Rightarrow> bool" where
  "py_truthy PNone = False"
| "py_truthy (PBool b) = b"
| "py_truthy (PInt i) = (i \<noteq> 0)"
| "py_truthy (PStr s) = (s \<noteq> [])"
| "py_truthy (PList xs) = (xs \<noteq> [])"
| "py_truthy (PDict kvs) = (kvs \<noteq> [])"

text \<open>
  Lists and dictionaries are unhashable: using one as a set element or a dictionary key
  raises \<^verbatim>\<open>TypeError\<close>. Python identifies \<^verbatim>\<open>True\<close> with \<^verbatim>\<open>1\<close> and \<^verbatim>\<open>False\<close> with \<^verbatim>\<open>0\<close>
  in sets and as keys, so a hashed collection holds the \<open>hash_key\<close> of a value.
\<close>

fun py_hashable :: "pyval \<Rightarrow> bool" where
  "py_hashable (PList xs) = False"
| "py_hashable (PDict kvs) = False"
| "py_hashable v = True"

fun hash_key :: "pyval \<Rightarrow> pyval" where
  "hash_key (PBool b) = PInt (if b then 1 else 0)"
| "hash_key v = v"

text \<open>\<^verbatim>\<open>d.get(k)\<close>: the value stored under \<open>k\<close>, or \<^verbatim>\<open>None\<close>.\<close>

definition dict_get :: "pydict \<Rightarrow> string \<Rightarrow> pyval" where
  "dict_get d k = (case map_of d k of None \<Rightarrow> PNone | Some v \<Rightarrow> v)"

text \<open>
  A record can go through the ID bookkeeping of the tracker and of the deduplication when
  its ID, if it has a truthy one, can be hashed. The IDs that the parser produces are
  strings.
\<close>

definition hashable_id :: "pydict \<Rightarrow> bool" where
  "hashable_id r \<longleftrightarrow> \<not> py_truthy (dict_get r ''id'') \<or> py_hashable (dict_get r ''id'')"

text \<open>\<^verbatim>\<open>k in d\<close>.\<close>

definition dict_has :: "pydict \<Rightarrow> string \<Rightarrow> bool" where
  "dict_has d k = (map_of d k \<noteq> None)"

text \<open>
  \<^verbatim>\<open>d[k] = v\<close>: an existing key keeps its position and takes the new value, a new key
  goes to the end.
\<close>

fun dict_set :: "'k \<Rightarrow> 'v \<Rightarrow> ('k \<times> 'v) list \<Rightarrow> ('k \<times> 'v) list" where
  "dict_set k v [] = [(k, v)]"
| "dict_set k v (p # ps) = (if fst p = k then (k, v) # ps else p # dict_set k v ps)"

text \<open>\<^verbatim>\<open>d.setdefault(k, v)\<close>: stores \<open>v\<close> only when \<open>k\<close> is absent.\<close>

definition dict_setdefault :: "string \<Rightarrow> pyval \<Rightarrow> pydict \<Rightarrow> pydict" where
  "dict_setdefault k v d = (if dict_has d k then d else dict_set k v d)"

subsection \<open>Strings\<close>

text \<open>
  \<^verbatim>\<open>str.isspace\<close> on one character of a string: tab to carriage return, the four
  separators, space, next line (133) and no-break space (160).
\<close>

definition py_isspace :: "char \<Rightarrow> bool" where
  "py_isspace c =
     (let n = (of_char c :: nat)
      in (9 \<le> n \<and> n \<le> 13) \<or> (28 \<le> n \<and> n \<le> 32) \<or> n = 133 \<or> n = 160)"

text \<open>\<^verbatim>\<open>str.isspace\<close> on any code point: the same, and the spaces beyond 255.\<close>

definition cp_isspace :: "nat \<Rightarrow> bool" where
  "cp_isspace n =
     ((9 \<le> n \<and> n \<le> 13) \<or> (28 \<le> n \<and> n \<le> 32) \<or> n = 133 \<or> n = 160 \<or> n = 5760 \<or>
      (8192 \<le> n \<and> n \<le> 8202) \<or> n = 8232 \<or> n = 8233 \<or> n = 8239 \<or> n = 8287 \<or>
      n = 12288)"

text \<open>
  \<^verbatim>\<open>c.upper()\<close> for one character, as code points: the letters a to z and the accented
  letters from 224 to 254 (but not the division sign, 247) move down by 32; the micro
  sign (181) becomes the Greek capital mu, the sharp s (223) becomes \<^verbatim>\<open>SS\<close>, and the y
  with diaeresis (255) becomes its capital, 376.
\<close>

definition upper_char :: "char \<Rightarrow> nat list" where
  "upper_char c =
     (let n = (of_char c :: nat) in
      if 97 \<le> n \<and> n \<le> 122 then [n - 32]
      else if n = 181 then [924]
      else if n = 223 then [83, 83]
      else if 224 \<le> n \<and> n \<le> 254 \<and> n \<noteq> 247 then [n - 32]
      else if n = 255 then [376]
      else [n])"

text \<open>
  \<^verbatim>\<open>c.lower()\<close> for one character: the letters A to Z and the accented capitals from 192
  to 222 (but not the multiplication sign, 215) move up by 32.
\<close>

definition lower_char :: "char \<Rightarrow> char" where
  "lower_char c =
     (let n = (of_char c :: nat) in
      if (65 \<le> n \<and> n \<le> 90) \<or> (192 \<le> n \<and> n \<le> 222 \<and> n \<noteq> 215) then char_of (n + 32)
      else c)"

definition py_upper :: "string \<Rightarrow> nat list" where
  "py_upper s = concat (map upper_char s)"

definition py_lower :: "string \<Rightarrow> string" where
  "py_lower s = map lower_char s"

text \<open>\<^verbatim>\<open>s.strip()\<close>: leading and trailing whitespace removed.\<close>

definition py_strip :: "string \<Rightarrow> string" where
  "py_strip s = rev (dropWhile py_isspace (rev (dropWhile py_isspace s)))"

text \<open>
  \<^verbatim>\<open>s.split()\<close>: the maximal runs of non-whitespace characters, in order. The first
  argument tells the whitespace, the second is the token being read. \<open>py_split\<close> splits
  a string, \<open>cp_split\<close> a list of code points.
\<close>

fun py_split_from :: "('a \<Rightarrow> bool) \<Rightarrow> 'a list \<Rightarrow> 'a list \<Rightarrow> 'a list list" where
  "py_split_from sp tok [] = (if tok = [] then [] else [tok])"
| "py_split_from sp tok (c # cs) =
     (if sp c
      then (if tok = [] then py_split_from sp [] cs else tok # py_split_from sp [] cs)
      else py_split_from sp (tok @ [c]) cs)"

definition py_split :: "string \<Rightarrow> string list" where
  "py_split s = py_split_from py_isspace [] s"

definition cp_split :: "nat list \<Rightarrow> nat list list" where
  "cp_split ns = py_split_from cp_isspace [] ns"

text \<open>\<^verbatim>\<open>s.startswith(p)\<close>, \<^verbatim>\<open>s.find(sub)\<close> (\<open>-1\<close> when absent), \<^verbatim>\<open>sub in s\<close>, \<^verbatim>\<open>s[i:]\<close>.\<close>

definition py_startswith :: "string \<Rightarrow> string \<Rightarrow> bool" where
  "py_startswith s p = (take (length p) s = p)"

fun py_find :: "string \<Rightarrow> string \<Rightarrow> int" where
  "py_find [] sub = (if sub = [] then 0 else - 1)"
| "py_find (c # cs) sub =
     (if py_startswith (c # cs) sub then 0
      else (let r = py_find cs sub in if r < 0 then - 1 else r + 1))"

definition py_contains :: "string \<Rightarrow> string \<Rightarrow> bool" where
  "py_contains sub s = (0 \<le> py_find s sub)"

definition py_slice_from :: "string \<Rightarrow> int \<Rightarrow> string" where
  "py_slice_from s i =
     (if i < 0 then drop (nat (int (length s) + i)) s else drop (nat i) s)"

text \<open>\<^verbatim>\<open>xs[-1]\<close>: the last element; \<^verbatim>\<open>IndexError\<close> on an empty list.\<close>

definition py_last :: "'a list \<Rightarrow> py_error + 'a" where
  "py_last xs = (if xs = [] then Inl IndexError else Inr (last xs))"

text \<open>Decimal notation of a number, as \<^verbatim>\<open>str\<close> and an f-string print it.\<close>

definition digit_char :: "nat \<Rightarrow> char" where
  "digit_char d = char_of (48 + d)"

function dec_nat :: "nat \<Rightarrow> string" where
  "dec_nat n = (if n < 10 then [digit_char n] else dec_nat (n div 10) @ [digit_char (n mod 10)])"
  by pat_completeness auto
termination
  by (relation "measure (\<lambda>n. n)") auto

declare dec_nat.simps [simp del]

definition dec_int :: "int \<Rightarrow> string" where
  "dec_int i = (if i < 0 then CHR ''-'' # dec_nat (nat (- i)) else dec_nat (nat i))"

text \<open>
  \<^verbatim>\<open>str(v)\<close>. What Python prints for a list or a dictionary is the business of the
  interpreter, not of the scraper; it is the parameter \<open>repr\<close>.
\<close>

definition py_str :: "(pyval \<Rightarrow> string) \<Rightarrow> pyval \<Rightarrow> string" where
  "py_str repr v =
     (case v of
        PStr s \<Rightarrow> s
      | PNone \<Rightarrow> ''None''
      | PBool b \<Rightarrow> (if b then ''True'' else ''False'')
      | PInt i \<Rightarrow> dec_int i
      | _ \<Rightarrow> repr v)"

text \<open>
  \<^verbatim>\<open>for x in v\<close>: a list gives its elements, a dictionary its keys, a string its
  characters; \<^verbatim>\<open>None\<close>, a boolean and a number are not iterable.
\<close>

definition py_iter :: "pyval \<Rightarrow> py_error + pyval list" where
  "py_iter v =
     (case v of
        PList xs \<Rightarrow> Inr xs
      | PDict kvs \<Rightarrow> Inr (map (\<lambda>kv. PStr (fst kv)) kvs)
      | PStr s \<Rightarrow> Inr (map (\<lambda>c. PStr [c]) s)
      | _ \<Rightarrow> Inl TypeError)"

section \<open>Monitoring tracker: \<^verbatim>\<open>detect_changes\<close>\<close>

text \<open>
  The loop of \<^verbatim>\<open>detect_changes\<close> (tracker.py, lines 41--50) over the current records,
  carrying \<^verbatim>\<open>current_ids\<close> and \<^verbatim>\<open>new_records\<close>. \<^verbatim>\<open>previous_ids\<close> is a \<^verbatim>\<open>Set[str]\<close>;
  \<^verbatim>\<open>current_ids\<close> receives whatever truthy value a record carries under \<^verbatim>\<open>"id"\<close>.
\<close>

fun detect_loop ::
  "string set \<Rightarrow> pydict list \<Rightarrow> pyval set \<times> pydict list \<Rightarrow> py_error + (pyval set \<times> pydict list)"
where
  "detect_loop previous_ids [] acc = Inr acc"
| "detect_loop previous_ids (rec # recs) (current_ids, new_records) =
     (let rec_id = dict_get rec ''id'' in
      if \<not> py_truthy rec_id then detect_loop previous_ids recs (current_ids, new_records)
      else if \<not> py_hashable rec_id then Inl TypeError
      else detect_loop previous_ids recs
             (insert (hash_key rec_id) current_ids,
              if hash_key rec_id \<notin> PStr ` previous_ids
              then new_records @ [rec] else new_records))"

definition removed_stub :: "string \<Rightarrow> pydict" where
  "removed_stub epc_id = [(''id'', PStr epc_id), (''removed'', PBool True)]"

definition detect_changes ::
  "pydict list \<Rightarrow> string set \<Rightarrow> py_error + (pydict list \<times> pydict list \<times> pyval set)"
where
  "detect_changes current_records previous_ids =
     (case detect_loop previous_ids current_records ({}, []) of
        Inl e \<Rightarrow> Inl e
      | Inr (current_ids, new_records) \<Rightarrow>
          (let removed_ids = {s \<in> previous_ids. PStr s \<notin> current_ids};
               removed_records = map removed_stub (sorted_list_of_set removed_ids);
               updated_id_set = PStr ` previous_ids \<union> current_ids
           in Inr (new_records, removed_records, updated_id_set)))"

text \<open>
  The closed form the loop is compared with: the IDs that the current records carry, and
  the test that makes a record new.
\<close>

definition record_ids :: "pydict list \<Rightarrow> pyval set" where
  "record_ids recs =
     {hash_key (dict_get r ''id'') | r. r \<in> set recs \<and> py_truthy (dict_get r ''id'')}"

definition is_new :: "string set \<Rightarrow> pydict \<Rightarrow> bool" where
  "is_new previous_ids r \<longleftrightarrow>
     py_truthy (dict_get r ''id'') \<and> hash_key (dict_get r ''id'') \<notin> PStr ` previous_ids"

section \<open>Monitoring tracker: the state file\<close>

text \<open>
  What \<^verbatim>\<open>load_state\<close> can meet at a path that exists: a file that cannot be opened or
  read (\<^verbatim>\<open>path.open\<close> raises \<^verbatim>\<open>OSError\<close>), text that \<^verbatim>\<open>json.load\<close> rejects with
  \<^verbatim>\<open>JSONDecodeError\<close>, or text that \<^verbatim>\<open>json.load\<close> turns into a value. \<^verbatim>\<open>json.dump\<close>
  followed by \<^verbatim>\<open>json.load\<close> gives the value back, so a written file is modelled by the
  value written. A path that does not exist is not in the file system.
\<close>

datatype stored = Unreadable | Garbled | Document pyval

type_synonym filesystem = "string \<rightharpoonup> stored"

definition load_state ::
  "(pyval \<Rightarrow> string) \<Rightarrow> filesystem \<Rightarrow> string \<Rightarrow> py_error + string set"
where
  "load_state repr fs path =
     (case fs path of
        None \<Rightarrow> Inr {}
      | Some Unreadable \<Rightarrow> Inl OSError
      | Some Garbled \<Rightarrow> Inr {}
      | Some (Document data) \<Rightarrow>
          (case data of
             PList xs \<Rightarrow> Inr (set (map (py_str repr) xs))
           | PDict kvs \<Rightarrow>
               (if dict_has kvs ''ids''
                then (case py_iter (dict_get kvs ''ids'') of
                        Inl e \<Rightarrow> Inl e
                      | Inr xs \<Rightarrow> Inr (set (map (py_str repr) xs)))
                else Inr {})
           | _ \<Rightarrow> Inr {}))"

text \<open>\<^verbatim>\<open>save_state\<close> writes \<^verbatim>\<open>{"ids": sorted(set(ids))}\<close>; the result is the new file system.\<close>

definition save_state :: "filesystem \<Rightarrow> string \<Rightarrow> string list \<Rightarrow> filesystem" where
  "save_state fs path ids =
     fs(path \<mapsto> Document (PDict [(''ids'', PList (map PStr (sorted_list_of_set (set ids))))]))"

section \<open>Normalisation and validation\<close>

text \<open>
  A \<^verbatim>\<open>datetime\<close> is either naive or carries a time zone; the number is its position on
  the time line. Comparing an aware one with the naive \<^verbatim>\<open>datetime.utcnow()\<close> raises
  \<^verbatim>\<open>TypeError\<close>. The parser of \<^verbatim>\<open>dateutil\<close> is a parameter: \<open>dateutil s\<close> is what
  \<^verbatim>\<open>date_parser.parse(s, dayfirst=True)\<close> returns on the string \<open>s\<close>, and \<open>None\<close> when it
  raises. On anything but a string it raises \<^verbatim>\<open>TypeError\<close>, which \<^verbatim>\<open>parse_date\<close> catches
  like the other errors.
\<close>

datatype pydatetime = Naive int | Aware int

definition parse_date :: "(string \<Rightarrow> pydatetime option) \<Rightarrow> pyval \<Rightarrow> pydatetime option" where
  "parse_date dateutil v =
     (if \<not> py_truthy v then None
      else (case v of PStr s \<Rightarrow> dateutil s | _ \<Rightarrow> None))"

text \<open>\<^verbatim>\<open>is_expired(valid_till)\<close> with the reference time \<open>now\<close> that \<^verbatim>\<open>utcnow()\<close> returns.\<close>

definition is_expired ::
  "(string \<Rightarrow> pydatetime option) \<Rightarrow> int \<Rightarrow> pyval \<Rightarrow> py_error + pyval"
where
  "is_expired dateutil now valid_till =
     (if \<not> py_truthy valid_till then Inr PNone
      else (case parse_date dateutil valid_till of
              None \<Rightarrow> Inr PNone
            | Some (Naive t) \<Rightarrow> Inr (PBool (t < now))
            | Some (Aware t) \<Rightarrow> Inl TypeError))"

definition defaults :: "(string \<times> pyval) list" where
  "defaults =
     [(''url'', PNone), (''postCode'', PNone), (''locality'', PNone), (''address'', PNone),
      (''rating'', PNone), (''id'', PNone), (''propertyType'', PNone), (''floorArea'', PNone),
      (''currentScore'', PNone), (''potentialScore'', PNone), (''primaryUsage'', PNone),
      (''averageBill'', PNone), (''potentialSaving'', PNone), (''averageCostYear'', PNone),
      (''co2Produces'', PNone), (''co2Potential'', PNone), (''features'', PList []),
      (''changes'', PList []), (''assessorName'', PNone), (''assessorPhone'', PNone),
      (''assessorEmail'', PNone), (''accreditationScheme'', PNone),
      (''accreditationAssessorID'', PNone), (''accreditationPhone'', PNone),
      (''accreditationEmail'', PNone), (''assessmentDate'', PNone),
      (''certificateDate'', PNone), (''assessmentType'', PNone), (''validtillDate'', PNone),
      (''expired'', PNone)]"

text \<open>The loop \<^verbatim>\<open>for key, default in defaults.items(): record.setdefault(key, default)\<close>.\<close>

fun fill_defaults :: "(string \<times> pyval) list \<Rightarrow> pydict \<Rightarrow> pydict" where
  "fill_defaults [] record = record"
| "fill_defaults ((key, dflt) # rest) record =
     fill_defaults rest (dict_setdefault key dflt record)"

definition normalize_record ::
  "(string \<Rightarrow> pydatetime option) \<Rightarrow> int \<Rightarrow> pydict \<Rightarrow> py_error + pydict"
where
  "normalize_record dateutil now record0 =
     (let record = fill_defaults defaults record0 in
      if dict_get record ''expired'' = PNone
      then (case is_expired dateutil now (dict_get record ''validtillDate'') of
              Inl e \<Rightarrow> Inl e
            | Inr v \<Rightarrow> Inr (dict_set ''expired'' v record))
      else Inr record)"

definition required_fields :: "string list" where
  "required_fields = [''url'', ''id'', ''postCode'', ''address'']"

definition missing_message :: "string \<Rightarrow> string" where
  "missing_message field = ''Missing required field '' @ [CHR 0x27] @ field @ [CHR 0x27]"

definition rating_message :: "string \<Rightarrow> string" where
  "rating_message shown = ''Unexpected rating band: '' @ shown"

definition expired_message :: string where
  "expired_message = ''validtillDate present but expired flag missing''"

text \<open>\<^verbatim>\<open>list("ABCDEFG")\<close>, as code points like the upper-cased rating.\<close>

definition rating_bands :: "nat list list" where
  "rating_bands = map (\<lambda>c. [of_char c]) ''ABCDEFG''"

text \<open>
  The rating block of \<^verbatim>\<open>validate_epc_record\<close> (lines 105--111): it returns the error
  list, extended or not, and raises when the stripped rating has no token.
\<close>

definition check_rating ::
  "(pyval \<Rightarrow> string) \<Rightarrow> pydict \<Rightarrow> string list \<Rightarrow> py_error + string list"
where
  "check_rating repr record errors =
     (if py_truthy (dict_get record ''rating'')
      then (let rating = py_upper (py_strip (py_str repr (dict_get record ''rating'')));
                parts = cp_split rating
            in case py_last parts of
                 Inl e \<Rightarrow> Inl e
               | Inr band \<Rightarrow>
                   (if band \<notin> set rating_bands
                    then Inr (errors @ [rating_message (py_str repr (dict_get record ''rating''))])
                    else Inr errors))
      else Inr errors)"

definition validate_epc_record ::
  "(pyval \<Rightarrow> string) \<Rightarrow> pydict \<Rightarrow> py_error + (bool \<times> string list)"
where
  "validate_epc_record repr record =
     (let errors = map missing_message
                     (filter (\<lambda>field. \<not> py_truthy (dict_get record field)) required_fields)
      in case check_rating repr record errors of
           Inl e \<Rightarrow> Inl e
         | Inr errors \<Rightarrow>
             (let errors =
                    (if py_truthy (dict_get record ''validtillDate'') \<and>
                        dict_get record ''expired'' = PNone
                     then errors @ [expired_message] else errors)
              in Inr (errors = [], errors)))"

text \<open>
  The tokens that the rating check lets through: one letter from A to G, in either case.
\<close>

definition band_letters :: "string list" where
  "band_letters = map (\<lambda>c. [c]) ''ABCDEFGabcdefg''"

section \<open>Deduplication\<close>

text \<open>
  The loop of \<^verbatim>\<open>deduplicate_records\<close> (main.py, lines 54--60). \<^verbatim>\<open>seen\<close> is a dictionary
  in insertion order, keyed by the ID; \<^verbatim>\<open>seen[rec_id] = rec\<close> overwrites the record of a
  key already present and leaves the key where it is.
\<close>

fun dedup_loop ::
  "pydict list \<Rightarrow> (pyval \<times> pydict) list \<Rightarrow> nat \<Rightarrow> py_error + (pyval \<times> pydict) list"
where
  "dedup_loop [] seen anonymous_counter = Inr seen"
| "dedup_loop (rec # recs) seen anonymous_counter =
     (let rec_id = dict_get rec ''id'' in
      if \<not> py_truthy rec_id
      then (let anonymous_counter = anonymous_counter + 1;
                rec_id = PStr (''anonymous-'' @ dec_nat anonymous_counter);
                rec = dict_set ''id'' rec_id rec
            in dedup_loop recs (dict_set rec_id rec seen) anonymous_counter)
      else if \<not> py_hashable rec_id then Inl TypeError
      else dedup_loop recs (dict_set (hash_key rec_id) rec seen) anonymous_counter)"

text \<open>\<^verbatim>\<open>list(seen.values())\<close>.\<close>

definition deduplicate_records :: "pydict list \<Rightarrow> py_error + pydict list" where
  "deduplicate_records records =
     (case dedup_loop records [] 0 of
        Inl e \<Rightarrow> Inl e
      | Inr seen \<Rightarrow> Inr (map snd seen))"

text \<open>
  For the statement of the result: a record lacks an ID when none is stored or the one
  stored is falsy; two records share an ID when their keys are equal; \<open>assign_ids n\<close>
  is the list of records as the loop leaves them when \<open>n\<close> synthetic IDs are already in
  use.
\<close>

definition lacks_id :: "pydict \<Rightarrow> bool" where
  "lacks_id r = (\<not> py_truthy (dict_get r ''id''))"

definition record_key :: "pydict \<Rightarrow> pyval" where
  "record_key r = hash_key (dict_get r ''id'')"

definition anonymous_id :: "nat \<Rightarrow> pyval" where
  "anonymous_id n = PStr (''anonymous-'' @ dec_nat n)"

fun assign_ids :: "nat \<Rightarrow> pydict list \<Rightarrow> pydict list" where
  "assign_ids n [] = []"
| "assign_ids n (r # rs) =
     (if lacks_id r then dict_set ''id'' (anonymous_id (Suc n)) r # assign_ids (Suc n) rs
      else r # assign_ids n rs)"

text \<open>
  For the proofs: one step of the loop on \<^verbatim>\<open>seen\<close>, and what the loop keeps true of it
  (no key twice, every record stored under its own key).
\<close>

definition seen_step :: "pydict \<Rightarrow> (pyval \<times> pydict) list \<Rightarrow> (pyval \<times> pydict) list" where
  "seen_step r seen = dict_set (record_key r) r seen"

definition keyed :: "(pyval \<times> pydict) list \<Rightarrow> bool" where
  "keyed seen = (distinct (map fst seen) \<and> list_all (\<lambda>p. fst p = record_key (snd p)) seen)"

section \<open>The parsed page\<close>

text \<open>
  The parsers work on a \<^verbatim>\<open>BeautifulSoup\<close> object. The model of a page is what the
  queries of the parsers find in it:
  \<^item> \<open>anchor_hrefs\<close>: the \<^verbatim>\<open>href\<close> of every \<^verbatim>\<open>a\<close> element that has one, in document
    order (\<^verbatim>\<open>soup.find_all("a", href=True)\<close>);
  \<^item> \<open>page_text\<close>: \<^verbatim>\<open>soup.get_text(" ", strip=True)\<close>;
  \<^item> \<open>elements\<close>: the headings and the tables of the page in document order. A heading
    has its level and its text \<^verbatim>\<open>get_text(" ", strip=True)\<close>; a table is the list of its
    rows (\<^verbatim>\<open>find_all("tr")\<close>), a row the list of its cells (\<^verbatim>\<open>find_all(["td", "th"])\<close>),
    a cell its tag and its text \<^verbatim>\<open>get_text(strip=True)\<close>. Every \<^verbatim>\<open>th\<close> of a table lies in
    one of its rows, and headings and tables do not nest.
\<close>

datatype cell_tag = TD | TH

type_synonym cell = "cell_tag \<times> string"

type_synonym table = "cell list list"

datatype element = Heading nat string | Table table

record soup =
  anchor_hrefs :: "string list"
  page_text :: string
  elements :: "element list"

text \<open>\<^verbatim>\<open>find_all("table")\<close> on a page, and \<^verbatim>\<open>find_all_next("table")\<close> on what follows a heading.\<close>

fun tables_of :: "element list \<Rightarrow> table list" where
  "tables_of [] = []"
| "tables_of (Table t # es) = t # tables_of es"
| "tables_of (Heading level txt # es) = tables_of es"

section \<open>Listing pages\<close>

definition DEFAULT_BASE :: string where
  "DEFAULT_BASE = ''https://find-energy-certificate.service.gov.uk''"

text \<open>\<^verbatim>\<open>urllib.parse.urljoin\<close> is the parameter \<open>urljoin\<close>.\<close>

definition build_absolute_url ::
  "(string \<Rightarrow> string \<Rightarrow> string) \<Rightarrow> string \<Rightarrow> string \<Rightarrow> string"
where
  "build_absolute_url urljoin href base_url =
     (if py_startswith href ''http://'' \<or> py_startswith href ''https://'' then href
      else if py_startswith href ''/'' then urljoin DEFAULT_BASE href
      else urljoin base_url href)"

text \<open>The loop over the anchors (lines 70--74) and the fallback loop over the tokens (80--83).\<close>

fun scan_anchors ::
  "(string \<Rightarrow> string \<Rightarrow> string) \<Rightarrow> string \<Rightarrow> string list \<Rightarrow> string set \<Rightarrow> string set"
where
  "scan_anchors urljoin base_url [] certificate_urls = certificate_urls"
| "scan_anchors urljoin base_url (href # hrefs) certificate_urls =
     (if py_contains ''/energy-certificate/'' href
      then scan_anchors urljoin base_url hrefs
             (insert (build_absolute_url urljoin href base_url) certificate_urls)
      else scan_anchors urljoin base_url hrefs certificate_urls)"

definition token_href :: "string \<Rightarrow> string" where
  "token_href token = py_slice_from token (py_find token ''/energy-certificate/'')"

fun scan_tokens ::
  "(string \<Rightarrow> string \<Rightarrow> string) \<Rightarrow> string \<Rightarrow> string list \<Rightarrow> string set \<Rightarrow> string set"
where
  "scan_tokens urljoin base_url [] certificate_urls = certificate_urls"
| "scan_tokens urljoin base_url (token # tokens) certificate_urls =
     (if py_contains ''/energy-certificate/'' token
      then scan_tokens urljoin base_url tokens
             (insert (build_absolute_url urljoin (token_href token) base_url) certificate_urls)
      else scan_tokens urljoin base_url tokens certificate_urls)"

definition parse_listing_page ::
  "(string \<Rightarrow> string \<Rightarrow> string) \<Rightarrow> soup \<Rightarrow> string \<Rightarrow> string list"
where
  "parse_listing_page urljoin page base_url =
     (let certificate_urls = scan_anchors urljoin base_url (anchor_hrefs page) {};
          certificate_urls =
            (if certificate_urls = {}
             then scan_tokens urljoin base_url (py_split (page_text page)) certificate_urls
             else certificate_urls)
      in sorted_list_of_set certificate_urls)"

section \<open>Certificate pages: features and changes\<close>

text \<open>\<^verbatim>\<open>cols[i].get_text(strip=True) if len(cols) > i else None\<close>.\<close>

definition cell_text :: "cell list \<Rightarrow> nat \<Rightarrow> pyval" where
  "cell_text cols i = (if length cols > i then PStr (snd (cols ! i)) else PNone)"

text \<open>The loop over the rows of a feature table (lines 133--147).\<close>

fun feature_rows :: "cell list list \<Rightarrow> pydict list \<Rightarrow> pydict list" where
  "feature_rows [] features = features"
| "feature_rows (cols # rows) features =
     (if cols = [] then feature_rows rows features
      else (let name = cell_text cols 0;
                description = cell_text cols 1;
                rating = cell_text cols 2
            in if py_truthy name \<or> py_truthy description \<or> py_truthy rating
               then feature_rows rows
                      (features @
                         [[(''name'', name), (''description'', description), (''rating'', rating)]])
               else feature_rows rows features))"

text \<open>\<^verbatim>\<open>[th.get_text(strip=True).lower() for th in table.find_all("th")]\<close>.\<close>

definition th_texts :: "table \<Rightarrow> string list" where
  "th_texts t = map (\<lambda>c. py_lower (snd c)) (filter (\<lambda>c. fst c = TH) (concat t))"

fun features_loop :: "table list \<Rightarrow> pydict list \<Rightarrow> pydict list" where
  "features_loop [] features = features"
| "features_loop (t # tables) features =
     (let headers = th_texts t in
      if headers = [] then features_loop tables features
      else if \<not> list_ex (\<lambda>h. py_contains ''feature'' h) headers
      then features_loop tables features
      else features_loop tables (feature_rows (drop 1 t) features))"

definition parse_features :: "soup \<Rightarrow> pydict list" where
  "parse_features page = features_loop (tables_of (elements page)) []"

text \<open>The loop over the rows of a table of recommended changes (lines 161--177).\<close>

fun change_rows :: "cell list list \<Rightarrow> pydict list \<Rightarrow> pydict list" where
  "change_rows [] changes = changes"
| "change_rows (cols # rows) changes =
     (if cols = [] then change_rows rows changes
      else (let name = cell_text cols 0;
                installation_cost = cell_text cols 1;
                yearly_saving = cell_text cols 2;
                potential_rating = cell_text cols 3
            in if py_truthy name \<or> py_truthy installation_cost \<or> py_truthy yearly_saving \<or>
                  py_truthy potential_rating
               then change_rows rows
                      (changes @
                         [[(''name'', name), (''installationCost'', installation_cost),
                           (''yearlySaving'', yearly_saving),
                           (''potentialRating'', potential_rating)]])
               else change_rows rows changes))"

text \<open>
  The loop over the headings (lines 155--178). Of the at most two tables that
  \<^verbatim>\<open>find_all_next("table", limit=2)\<close> returns, the \<^verbatim>\<open>break\<close> at the end of the body lets
  only the first one through.
\<close>

fun changes_loop :: "element list \<Rightarrow> pydict list \<Rightarrow> pydict list" where
  "changes_loop [] changes = changes"
| "changes_loop (Table t # rest) changes = changes_loop rest changes"
| "changes_loop (Heading level txt # rest) changes =
     (if \<not> (level = 2 \<or> level = 3 \<or> level = 4) then changes_loop rest changes
      else (let header_text = py_lower txt in
            if \<not> py_contains ''improvement'' header_text \<and>
               \<not> py_contains ''recommended measure'' header_text
            then changes_loop rest changes
            else (case take 2 (tables_of rest) of
                    [] \<Rightarrow> changes_loop rest changes
                  | t # later \<Rightarrow> changes_loop rest (change_rows (drop 1 t) changes))))"

definition parse_changes :: "soup \<Rightarrow> pydict list" where
  "parse_changes page = changes_loop (elements page) []"

section \<open>Closed forms for the table parsers\<close>

text \<open>
  What the two extractions are compared with. A row is kept when it has a cell and one
  of its first three (features) or four (changes) cells has text; a kept row gives the
  record of its first cells. A table has a feature header when one of its \<^verbatim>\<open>th\<close> cells
  contains \<^verbatim>\<open>feature\<close> once lower-cased. \<open>headings_with_tables\<close> pairs every heading
  with the tables that follow it in the document.
\<close>

definition feature_kept :: "cell list \<Rightarrow> bool" where
  "feature_kept cols \<longleftrightarrow> cols \<noteq> [] \<and> list_ex (\<lambda>c. snd c \<noteq> []) (take 3 cols)"

definition feature_record :: "cell list \<Rightarrow> pydict" where
  "feature_record cols =
     [(''name'', cell_text cols 0), (''description'', cell_text cols 1),
      (''rating'', cell_text cols 2)]"

definition has_feature_header :: "table \<Rightarrow> bool" where
  "has_feature_header t =
     list_ex (\<lambda>c. fst c = TH \<and> py_contains ''feature'' (py_lower (snd c))) (concat t)"

definition table_features :: "table \<Rightarrow> pydict list" where
  "table_features t =
     (if has_feature_header t then map feature_record (filter feature_kept (drop 1 t)) else [])"

definition change_kept :: "cell list \<Rightarrow> bool" where
  "change_kept cols \<longleftrightarrow> cols \<noteq> [] \<and> list_ex (\<lambda>c. snd c \<noteq> []) (take 4 cols)"

definition change_record :: "cell list \<Rightarrow> pydict" where
  "change_record cols =
     [(''name'', cell_text cols 0), (''installationCost'', cell_text cols 1),
      (''yearlySaving'', cell_text cols 2), (''potentialRating'', cell_text cols 3)]"

fun headings_with_tables :: "element list \<Rightarrow> (nat \<times> string \<times> table list) list" where
  "headings_with_tables [] = []"
| "headings_with_tables (Table t # es) = headings_with_tables es"
| "headings_with_tables (Heading level txt # es) =
     (level, txt, tables_of es) # headings_with_tables es"

definition changes_heading :: "nat \<Rightarrow> string \<Rightarrow> bool" where
  "changes_heading level txt \<longleftrightarrow>
     (level = 2 \<or> level = 3 \<or> level = 4) \<and>
     (py_contains ''improvement'' (py_lower txt) \<or>
      py_contains ''recommended measure'' (py_lower txt))"

definition heading_changes :: "nat \<times> string \<times> table list \<Rightarrow> pydict list" where
  "heading_changes h =
     (case h of (level, txt, following) \<Rightarrow>
        if changes_heading level txt
        then (case following of
                [] \<Rightarrow> []
              | t # later \<Rightarrow> map change_record (filter change_kept (drop 1 t)))
        else [])"

section \<open>Properties of the monitoring tracker\<close>

lemma record_ids_Nil: "record_ids [] = {}"
  by (simp add: record_ids_def)

lemma record_ids_Cons:
  "record_ids (r # rs) =
     (if py_truthy (dict_get r ''id'')
      then insert (hash_key (dict_get r ''id'')) (record_ids rs) else record_ids rs)"
  by (auto simp: record_ids_def)

lemma detect_loop_closed:
  "\<forall>r\<in>set recs. hashable_id r \<Longrightarrow>
   detect_loop prev recs (cur, new) =
     Inr (cur \<union> record_ids recs, new @ filter (is_new prev) recs)"
proof (induction recs arbitrary: cur new)
  case Nil
  then show ?case by (simp add: record_ids_Nil)
next
  case (Cons r rs)
  then show ?case by (auto simp: record_ids_Cons is_new_def hashable_id_def Let_def)
qed

text \<open>
  Claim C1. For every list of current records whose truthy IDs can be hashed (strings,
  as the data model has them) and every finite set of previous IDs, \<open>detect_changes\<close>
  returns:
  as new records, the current records in encounter order whose \<^verbatim>\<open>id\<close> is truthy and not
  among the previous IDs (a record without an \<^verbatim>\<open>id\<close> contributes neither a new record
  nor a current ID); as removed records, one stub \<^verbatim>\<open>{"id": epc_id, "removed": True}\<close> per
  previous ID that no current record carries, sorted by ID and without repetition; as
  updated ID set, the union of the previous and the current IDs.
\<close>

theorem detect_changes_spec:
  assumes "finite previous_ids" and "\<forall>r\<in>set recs. hashable_id r"
  shows "\<exists>removed_ids.
           detect_changes recs previous_ids =
             Inr (filter (is_new previous_ids) recs,
                  map (\<lambda>epc_id. [(''id'', PStr epc_id), (''removed'', PBool True)]) removed_ids,
                  PStr ` previous_ids \<union> record_ids recs) \<and>
           sorted removed_ids \<and> distinct removed_ids \<and>
           set removed_ids = {s \<in> previous_ids. PStr s \<notin> record_ids recs}"
proof -
  let ?R = "{s \<in> previous_ids. PStr s \<notin> record_ids recs}"
  have fin: "finite ?R" using assms(1) by simp
  have stub: "removed_stub = (\<lambda>epc_id. [(''id'', PStr epc_id), (''removed'', PBool True)])"
    by (simp add: fun_eq_iff removed_stub_def)
  have "detect_changes recs previous_ids =
          Inr (filter (is_new previous_ids) recs,
               map (\<lambda>epc_id. [(''id'', PStr epc_id), (''removed'', PBool True)])
                 (sorted_list_of_set ?R),
               PStr ` previous_ids \<union> record_ids recs)"
    unfolding stub [symmetric]
    by (simp add: detect_changes_def detect_loop_closed [OF assms(2)])
  moreover have "sorted (sorted_list_of_set ?R)" "distinct (sorted_list_of_set ?R)"
    by simp_all
  moreover have "set (sorted_list_of_set ?R) = ?R" using fin by simp
  ultimately show ?thesis by blast
qed

text \<open>
  The example of the specification: previous IDs \<^verbatim>\<open>{"a", "b"}\<close> and the single current
  record \<^verbatim>\<open>{"id": "a"}\<close> give no new record and the one stub for \<^verbatim>\<open>"b"\<close>.
\<close>

lemma distinct_singleton_set: "distinct xs \<Longrightarrow> set xs = {x} \<Longrightarrow> xs = [x]"
proof (cases xs)
  case Nil
  assume "set xs = {x}"
  with Nil show ?thesis by simp
next
  case (Cons y ys)
  assume d: "distinct xs" and s: "set xs = {x}"
  from s Cons have y: "y = x" by auto
  from s Cons y have "set ys \<subseteq> {x}" by auto
  moreover from d Cons y have "x \<notin> set ys" by simp
  ultimately have "ys = []" by (cases ys) auto
  then show ?thesis using Cons y by simp
qed

theorem detect_changes_spec_witness:
  "finite {''a'', ''b''} \<and>
   hashable_id [(''id'', PStr ''a'')] \<and>
   detect_changes [[(''id'', PStr ''a'')]] {''a'', ''b''} =
     Inr ([], [[(''id'', PStr ''b''), (''removed'', PBool True)]], {PStr ''a'', PStr ''b''})"
proof -
  let ?recs = "[[(''id'', PStr ''a'')]]"
  have h1: "finite {''a'', ''b''}" by simp
  have h2: "\<forall>r\<in>set ?recs. hashable_id r"
    by (simp add: hashable_id_def dict_get_def)
  have ids: "record_ids ?recs = {PStr ''a''}"
    by (auto simp: record_ids_def dict_get_def)
  have new: "filter (is_new {''a'', ''b''}) ?recs = []"
    by (simp add: is_new_def dict_get_def)
  have rem: "{s \<in> {''a'', ''b''}. PStr s \<notin> record_ids ?recs} = {''b''}"
    by (auto simp: ids)
  have upd: "PStr ` {''a'', ''b''} \<union> record_ids ?recs = {PStr ''a'', PStr ''b''}"
    by (auto simp: ids)
  from detect_changes_spec [OF h1 h2] obtain removed_ids where
    r: "detect_changes ?recs {''a'', ''b''} =
          Inr (filter (is_new {''a'', ''b''}) ?recs,
               map (\<lambda>epc_id. [(''id'', PStr epc_id), (''removed'', PBool True)]) removed_ids,
               PStr ` {''a'', ''b''} \<union> record_ids ?recs)"
    and d: "distinct removed_ids"
    and s: "set removed_ids = {s \<in> {''a'', ''b''}. PStr s \<notin> record_ids ?recs}"
    by blast
  from d s have "removed_ids = [''b'']" unfolding rem by (rule distinct_singleton_set)
  with r have "detect_changes ?recs {''a'', ''b''} =
     Inr ([], [[(''id'', PStr ''b''), (''removed'', PBool True)]], {PStr ''a'', PStr ''b''})"
    unfolding new upd by simp
  with h1 h2 show ?thesis by simp
qed

section \<open>Properties of the state file\<close>

lemma py_str_PStr: "py_str repr (PStr s) = s" by (simp add: py_str_def)

text \<open>
  Claim C2. For every list of string IDs, in whatever order and with whatever
  repetitions they are passed, \<open>save_state\<close> followed by \<open>load_state\<close> on the written
  file returns exactly the set of those IDs; and the file written depends on the set of
  IDs only, not on the order of iteration.
\<close>

theorem save_load_roundtrip:
  "load_state repr (save_state fs path ids) path = Inr (set ids) \<and>
   (\<forall>ids'. set ids' = set ids \<longrightarrow> save_state fs path ids' = save_state fs path ids)"
  by (simp add: load_state_def save_state_def dict_has_def dict_get_def py_iter_def
      py_str_PStr comp_def)

theorem save_load_roundtrip_witness:
  "load_state (\<lambda>v. []) (save_state Map.empty ''data/epc_state.json'' [''b'', ''a'', ''b''])
     ''data/epc_state.json'' = Inr {''a'', ''b''} \<and>
   save_state Map.empty ''data/epc_state.json'' [''a'', ''b''] =
     save_state Map.empty ''data/epc_state.json'' [''b'', ''a'', ''b'']"
proof -
  let ?ids = "[''b'', ''a'', ''b'']"
  note inst = save_load_roundtrip [of "\<lambda>v. []" Map.empty "''data/epc_state.json''" ?ids]
  have eq: "set [''a'', ''b''] = set ?ids" by auto
  have s: "set ?ids = {''a'', ''b''}" by auto
  from inst have "load_state (\<lambda>v. []) (save_state Map.empty ''data/epc_state.json'' ?ids)
     ''data/epc_state.json'' = Inr (set ?ids)" by (rule conjunct1)
  moreover from inst eq have "save_state Map.empty ''data/epc_state.json'' [''a'', ''b''] =
     save_state Map.empty ''data/epc_state.json'' ?ids" by blast
  ultimately show ?thesis unfolding s by (rule conjI)
qed

text \<open>
  Claim C9 asks \<open>load_state\<close> to return a set for every content of the state file. On
  the JSON object \<^verbatim>\<open>{"ids": 5}\<close> it raises instead: the object has the key \<^verbatim>\<open>ids\<close>, and
  the number under it cannot be iterated.
\<close>

theorem load_state_ids_not_iterable:
  "load_state repr (Map.empty(''data/epc_state.json'' \<mapsto> Document (PDict [(''ids'', PInt 5)])))
     ''data/epc_state.json'' = Inl TypeError"
  by (simp add: load_state_def dict_has_def dict_get_def py_iter_def)

section \<open>Properties of normalisation\<close>

lemma dict_has_set: "dict_has (dict_set k v d) k' \<longleftrightarrow> k' = k \<or> dict_has d k'"
  by (induction d) (auto simp: dict_has_def)

lemma dict_get_set: "dict_get (dict_set k v d) k' = (if k' = k then v else dict_get d k')"
  by (induction d) (auto simp: dict_get_def)

lemma dict_set_same: "map_of d k = Some v \<Longrightarrow> dict_set k v d = d"
  by (induction d) (auto split: if_splits)

lemma dict_has_setdefault: "dict_has (dict_setdefault k v d) k' \<longleftrightarrow> k' = k \<or> dict_has d k'"
  by (auto simp: dict_setdefault_def dict_has_set)

lemma dict_has_fill:
  "dict_has (fill_defaults ds d) k \<longleftrightarrow> k \<in> fst ` set ds \<or> dict_has d k"
  by (induction ds d rule: fill_defaults.induct) (auto simp: dict_has_setdefault)

lemma fill_defaults_id:
  "\<forall>k \<in> fst ` set ds. dict_has d k \<Longrightarrow> fill_defaults ds d = d"
  by (induction ds d rule: fill_defaults.induct) (auto simp: dict_setdefault_def)

lemma fill_defaults_twice: "fill_defaults ds (fill_defaults ds d) = fill_defaults ds d"
  by (rule fill_defaults_id) (simp add: dict_has_fill)

lemma fill_defaults_after_set:
  "fill_defaults ds (dict_set k v (fill_defaults ds d)) = dict_set k v (fill_defaults ds d)"
  by (rule fill_defaults_id) (simp add: dict_has_set dict_has_fill)

lemma expired_in_defaults: "''expired'' \<in> fst ` set defaults"
  by (simp add: defaults_def)

lemma dict_get_None_has: "dict_has d k \<Longrightarrow> dict_get d k = PNone \<Longrightarrow> map_of d k = Some PNone"
  by (auto simp: dict_has_def dict_get_def split: option.splits)

text \<open>
  Claim C3. \<open>normalize_record\<close> is idempotent at a fixed reference time: when it
  returns a record, applying it to that record returns the same record again, with no
  key and no value changed, the derived \<^verbatim>\<open>expired\<close> flag included.
\<close>

theorem normalize_record_idempotent:
  assumes "normalize_record dateutil now record = Inr record'"
  shows "normalize_record dateutil now record' = Inr record'"
proof -
  let ?r = "fill_defaults defaults record"
  have has: "dict_has ?r ''expired''"
    by (simp add: dict_has_fill expired_in_defaults)
  show ?thesis
  proof (cases "dict_get ?r ''expired'' = PNone")
    case False
    with assms have r': "record' = ?r" by (simp add: normalize_record_def Let_def)
    show ?thesis using False unfolding r' normalize_record_def Let_def fill_defaults_twice by simp
  next
    case True
    with assms obtain v where
      v: "is_expired dateutil now (dict_get ?r ''validtillDate'') = Inr v"
      and r': "record' = dict_set ''expired'' v ?r"
      by (auto simp: normalize_record_def Let_def split: sum.splits)
    have fill: "fill_defaults defaults record' = record'"
      unfolding r' by (rule fill_defaults_after_set)
    have get_e: "dict_get record' ''expired'' = v" by (simp add: r' dict_get_set)
    have get_v: "dict_get record' ''validtillDate'' = dict_get ?r ''validtillDate''"
      by (simp add: r' dict_get_set)
    show ?thesis
    proof (cases "v = PNone")
      case False
      then show ?thesis by (simp add: normalize_record_def Let_def fill get_e)
    next
      case vn: True
      have "map_of ?r ''expired'' = Some PNone" using has True by (rule dict_get_None_has)
      then have same: "dict_set ''expired'' PNone ?r = ?r" by (rule dict_set_same)
      have r'': "record' = ?r" using r' vn same by simp
      have "dict_set ''expired'' PNone record' = record'" using same r'' by simp
      then show ?thesis using v vn
        by (simp add: normalize_record_def Let_def fill get_e get_v)
    qed
  qed
qed

lemma dict_get_setdefault_has:
  "dict_has d k' \<Longrightarrow> dict_get (dict_setdefault k v d) k' = dict_get d k'"
  by (auto simp: dict_setdefault_def dict_get_set)

lemma dict_get_fill_has:
  "dict_has d k \<Longrightarrow> dict_get (fill_defaults ds d) k = dict_get d k"
  by (induction ds d rule: fill_defaults.induct)
     (simp_all add: dict_get_setdefault_has dict_has_setdefault)

theorem normalize_record_idempotent_witness:
  "normalize_record (\<lambda>s. if s = ''14 March 2031'' then Some (Naive 100) else None) 50
     [(''validtillDate'', PStr ''14 March 2031''), (''expired'', PNone)] =
     Inr (dict_set ''expired'' (PBool False)
            (fill_defaults defaults
               [(''validtillDate'', PStr ''14 March 2031''), (''expired'', PNone)])) \<and>
   normalize_record (\<lambda>s. if s = ''14 March 2031'' then Some (Naive 100) else None) 50
     (dict_set ''expired'' (PBool False)
        (fill_defaults defaults
           [(''validtillDate'', PStr ''14 March 2031''), (''expired'', PNone)])) =
     Inr (dict_set ''expired'' (PBool False)
            (fill_defaults defaults
               [(''validtillDate'', PStr ''14 March 2031''), (''expired'', PNone)]))"
proof -
  let ?d = "\<lambda>s. if s = ''14 March 2031'' then Some (Naive 100) else None"
  let ?rin = "[(''validtillDate'', PStr ''14 March 2031''), (''expired'', PNone)]"
  let ?r = "fill_defaults defaults ?rin"
  have "dict_has ?rin ''expired''" by (simp add: dict_has_def)
  then have "dict_get ?r ''expired'' = dict_get ?rin ''expired''" by (rule dict_get_fill_has)
  moreover have "dict_get ?rin ''expired'' = PNone" by (simp add: dict_get_def)
  ultimately have e: "dict_get ?r ''expired'' = PNone" by (rule trans)
  have "dict_has ?rin ''validtillDate''" by (simp add: dict_has_def)
  then have "dict_get ?r ''validtillDate'' = dict_get ?rin ''validtillDate''"
    by (rule dict_get_fill_has)
  moreover have "dict_get ?rin ''validtillDate'' = PStr ''14 March 2031''"
    by (simp add: dict_get_def)
  ultimately have v: "dict_get ?r ''validtillDate'' = PStr ''14 March 2031''"
    by (rule trans)
  have x: "is_expired ?d 50 (PStr ''14 March 2031'') = Inr (PBool False)"
    by (simp add: is_expired_def parse_date_def)
  have first: "normalize_record ?d 50 ?rin = Inr (dict_set ''expired'' (PBool False) ?r)"
    unfolding normalize_record_def Let_def e v x by simp
  from first normalize_record_idempotent [OF first] show ?thesis by (rule conjI)
qed

section \<open>Properties of validation\<close>

lemma of_char_less_256: "(of_char c :: nat) < 256"
proof -
  have "(of_char c :: nat) mod 256 < 256" by simp
  then show ?thesis by (simp only: of_char_mod_256)
qed

lemma cp_isspace_small:
  "n < 256 \<Longrightarrow>
   cp_isspace n \<longleftrightarrow> (9 \<le> n \<and> n \<le> 13) \<or> (28 \<le> n \<and> n \<le> 32) \<or> n = 133 \<or> n = 160"
  by (auto simp: cp_isspace_def)

lemma cp_isspace_of_char: "cp_isspace (of_char c) = py_isspace c"
  using cp_isspace_small [OF of_char_less_256, of c] by (simp add: py_isspace_def Let_def)

lemma upper_char_nonempty: "upper_char c \<noteq> []"
  by (simp add: upper_char_def Let_def)

lemma upper_char_space: "py_isspace c \<Longrightarrow> upper_char c = [of_char c]"
  by (auto simp: py_isspace_def upper_char_def Let_def)

lemma upper_char_nonspace: "\<not> py_isspace c \<Longrightarrow> \<forall>n\<in>set (upper_char c). \<not> cp_isspace n"
proof -
  assume a: "\<not> py_isspace c"
  define n where "n = (of_char c :: nat)"
  have lt: "n < 256" unfolding n_def by (rule of_char_less_256)
  from a have ns: "\<not> ((9 \<le> n \<and> n \<le> 13) \<or> (28 \<le> n \<and> n \<le> 32) \<or> n = 133 \<or> n = 160)"
    by (simp add: py_isspace_def Let_def n_def)
  have u: "upper_char c =
      (if 97 \<le> n \<and> n \<le> 122 then [n - 32]
       else if n = 181 then [924]
       else if n = 223 then [83, 83]
       else if 224 \<le> n \<and> n \<le> 254 \<and> n \<noteq> 247 then [n - 32]
       else if n = 255 then [376]
       else [n])"
    by (simp add: upper_char_def Let_def n_def)
  show ?thesis unfolding u using lt ns by (auto simp: cp_isspace_def)
qed

lemma py_upper_Nil: "py_upper [] = []"
  by (simp add: py_upper_def)

lemma py_upper_Cons: "py_upper (c # cs) = upper_char c @ py_upper cs"
  by (simp add: py_upper_def)

lemma py_upper_snoc: "py_upper (cs @ [c]) = py_upper cs @ upper_char c"
  by (simp add: py_upper_def)

lemma py_upper_eq_Nil: "py_upper s = [] \<longleftrightarrow> s = []"
  by (cases s) (simp_all add: py_upper_Nil py_upper_Cons upper_char_nonempty)

lemma split_from_nonspaces:
  "\<forall>x\<in>set xs. \<not> sp x \<Longrightarrow> py_split_from sp tok (xs @ rest) = py_split_from sp (tok @ xs) rest"
  by (induction xs arbitrary: tok) simp_all

lemma split_from_upper:
  "py_split_from cp_isspace (py_upper tok) (py_upper s) =
     map py_upper (py_split_from py_isspace tok s)"
proof (induction s arbitrary: tok)
  case Nil
  then show ?case by (simp add: py_upper_Nil py_upper_eq_Nil)
next
  case (Cons c s)
  show ?case
  proof (cases "py_isspace c")
    case True
    then have u: "py_upper (c # s) = of_char c # py_upper s"
      by (simp add: py_upper_Cons upper_char_space)
    have sp: "cp_isspace (of_char c)" using True by (simp add: cp_isspace_of_char)
    show ?thesis
      unfolding u using True sp Cons.IH [of "[]"]
      by (simp add: py_upper_Nil py_upper_eq_Nil)
  next
    case False
    have "py_split_from cp_isspace (py_upper tok) (py_upper (c # s)) =
            py_split_from cp_isspace (py_upper tok) (upper_char c @ py_upper s)"
      by (simp only: py_upper_Cons)
    also have "\<dots> = py_split_from cp_isspace (py_upper tok @ upper_char c) (py_upper s)"
      using upper_char_nonspace [OF False] by (rule split_from_nonspaces)
    also have "\<dots> = py_split_from cp_isspace (py_upper (tok @ [c])) (py_upper s)"
      by (simp only: py_upper_snoc)
    also have "\<dots> = map py_upper (py_split_from py_isspace (tok @ [c]) s)"
      by (rule Cons.IH)
    also have "\<dots> = map py_upper (py_split_from py_isspace tok (c # s))"
      using False by simp
    finally show ?thesis .
  qed
qed

lemma split_upper: "cp_split (py_upper s) = map py_upper (py_split s)"
  using split_from_upper [of "[]" s] by (simp add: py_split_def cp_split_def py_upper_Nil)

lemma split_from_spaces_Nil: "\<forall>c\<in>set ws. sp c \<Longrightarrow> py_split_from sp [] ws = []"
  by (induction ws) simp_all

lemma split_from_spaces:
  "\<forall>c\<in>set ws. sp c \<Longrightarrow> py_split_from sp tok ws = (if tok = [] then [] else [tok])"
  by (cases ws) (simp_all add: split_from_spaces_Nil)

lemma split_from_append_spaces:
  "\<forall>c\<in>set ws. sp c \<Longrightarrow> py_split_from sp tok (s @ ws) = py_split_from sp tok s"
  by (induction s arbitrary: tok) (simp_all add: split_from_spaces)

lemma split_from_dropWhile: "py_split_from sp [] (dropWhile sp s) = py_split_from sp [] s"
  by (induction s) simp_all

lemma strip_decomp:
  "\<exists>ws. (\<forall>c\<in>set ws. py_isspace c) \<and> dropWhile py_isspace s = py_strip s @ ws"
proof -
  let ?t = "dropWhile py_isspace s"
  have a: "takeWhile py_isspace (rev ?t) @ dropWhile py_isspace (rev ?t) = rev ?t"
    by (rule takeWhile_dropWhile_id)
  have "rev (rev ?t) = rev (takeWhile py_isspace (rev ?t) @ dropWhile py_isspace (rev ?t))"
    by (simp only: a)
  then have "?t = rev (dropWhile py_isspace (rev ?t)) @ rev (takeWhile py_isspace (rev ?t))"
    by (simp only: rev_rev_ident rev_append)
  then have "?t = py_strip s @ rev (takeWhile py_isspace (rev ?t))"
    by (simp only: py_strip_def)
  moreover have "\<forall>c\<in>set (rev (takeWhile py_isspace (rev ?t))). py_isspace c"
    by (auto dest: set_takeWhileD)
  ultimately show ?thesis by blast
qed

lemma split_strip: "py_split (py_strip s) = py_split s"
proof -
  obtain ws where ws: "\<forall>c\<in>set ws. py_isspace c"
    and eq: "dropWhile py_isspace s = py_strip s @ ws"
    using strip_decomp by blast
  have "py_split_from py_isspace [] (py_strip s) = py_split_from py_isspace [] (py_strip s @ ws)"
    using ws by (simp add: split_from_append_spaces)
  also have "\<dots> = py_split_from py_isspace [] s"
    unfolding eq [symmetric] by (rule split_from_dropWhile)
  finally show ?thesis by (simp add: py_split_def)
qed

lemma char_eq_code: "c = d \<longleftrightarrow> (of_char c :: nat) = of_char d"
  by simp

lemma in_rating_bands: "ns \<in> set rating_bands \<longleftrightarrow> (\<exists>x. ns = [x] \<and> 65 \<le> x \<and> x \<le> 71)"
proof -
  have "\<And>x::nat. 65 \<le> x \<and> x \<le> 71 \<longleftrightarrow>
          x = 65 \<or> x = 66 \<or> x = 67 \<or> x = 68 \<or> x = 69 \<or> x = 70 \<or> x = 71"
    by arith
  then show ?thesis by (auto simp: rating_bands_def)
qed

lemma upper_char_band:
  "(\<exists>x. upper_char c = [x] \<and> 65 \<le> x \<and> x \<le> 71) \<longleftrightarrow> c \<in> set ''ABCDEFGabcdefg''"
proof -
  have r: "c \<in> set ''ABCDEFGabcdefg'' \<longleftrightarrow>
             (65 \<le> (of_char c :: nat) \<and> (of_char c :: nat) \<le> 71) \<or>
             (97 \<le> (of_char c :: nat) \<and> (of_char c :: nat) \<le> 103)"
    by (simp add: char_eq_code [of c]) arith
  show ?thesis unfolding r by (auto simp: upper_char_def Let_def)
qed

lemma length_py_upper: "length s \<le> length (py_upper s)"
proof (induction s)
  case Nil
  then show ?case by simp
next
  case (Cons c s)
  have "1 \<le> length (upper_char c)"
    using upper_char_nonempty [of c] by (cases "upper_char c") simp_all
  with Cons show ?case by (simp add: py_upper_Cons)
qed

lemma band_upper: "py_upper t \<in> set rating_bands \<longleftrightarrow> t \<in> set band_letters"
proof (cases t)
  case Nil
  then show ?thesis by (simp add: py_upper_Nil in_rating_bands band_letters_def)
next
  case (Cons c cs)
  show ?thesis
  proof (cases cs)
    case Nil
    have "py_upper [c] = upper_char c" by (simp add: py_upper_def)
    moreover have "[c] \<in> set band_letters \<longleftrightarrow> c \<in> set ''ABCDEFGabcdefg''"
      by (auto simp: band_letters_def)
    ultimately show ?thesis
      using Nil Cons upper_char_band [of c] by (simp add: in_rating_bands)
  next
    case (Cons d ds)
    with \<open>t = c # cs\<close> have "2 \<le> length (py_upper t)"
      using length_py_upper [of t] by simp
    then have "py_upper t \<notin> set rating_bands" by (auto simp: in_rating_bands)
    moreover have "t \<notin> set band_letters"
      using Cons \<open>t = c # cs\<close> by (auto simp: band_letters_def)
    ultimately show ?thesis by simp
  qed
qed

lemma split_Nil: "py_split [] = []" by (simp add: py_split_def)

lemma check_rating_str:
  assumes "dict_get record ''rating'' = PStr s" and "py_split s \<noteq> []"
  shows "check_rating repr record errors =
           Inr (if last (py_split s) \<in> set band_letters then errors
                else errors @ [rating_message s])"
proof -
  have ne: "s \<noteq> []" using assms(2) split_Nil by auto
  have parts: "cp_split (py_upper (py_strip s)) = map py_upper (py_split s)"
    by (simp add: split_upper split_strip)
  have lst: "last (map py_upper (py_split s)) = py_upper (last (py_split s))"
    using assms(2) by (rule last_map)
  show ?thesis
    using assms ne
    by (simp add: check_rating_def Let_def py_str_PStr parts py_last_def lst band_upper)
qed

lemma rating_message_not_missing: "rating_message s \<noteq> missing_message f"
  by (simp add: rating_message_def missing_message_def)

lemma rating_message_not_expired: "rating_message s \<noteq> expired_message"
  by (simp add: rating_message_def expired_message_def)

text \<open>
  Claim C7, as amended. For every record whose rating is a string with at least one
  token: \<open>validate_epc_record\<close> returns, and the error list holds the rating-band error
  \<^verbatim>\<open>Unexpected rating band: \<close> followed by the rating exactly when the last
  whitespace-delimited token of the rating is not a single letter from A to G in either
  case (the check upper-cases the rating first).
\<close>

theorem rating_check_spec:
  assumes "dict_get record ''rating'' = PStr s" and "py_split s \<noteq> []"
  shows "\<exists>ok errors.
           validate_epc_record repr record = Inr (ok, errors) \<and>
           (''Unexpected rating band: '' @ s \<in> set errors \<longleftrightarrow>
              last (py_split s) \<notin> set band_letters)"
proof -
  have m: "''Unexpected rating band: '' @ s = rating_message s"
    by (simp add: rating_message_def)
  show ?thesis
    unfolding m
    by (auto simp: validate_epc_record_def Let_def check_rating_str [OF assms]
        rating_message_not_missing rating_message_not_expired)
qed

theorem rating_check_spec_witness:
  "dict_get [(''rating'', PStr ''75 c'')] ''rating'' = PStr ''75 c'' \<and>
   py_split ''75 c'' = [''75'', ''c''] \<and> ''c'' \<in> set band_letters \<and>
   (\<exists>ok errors.
      validate_epc_record (\<lambda>v. []) [(''rating'', PStr ''75 c'')] = Inr (ok, errors) \<and>
      ''Unexpected rating band: 75 c'' \<notin> set errors)"
proof -
  have h1: "dict_get [(''rating'', PStr ''75 c'')] ''rating'' = PStr ''75 c''"
    by (simp add: dict_get_def)
  have sp: "py_split ''75 c'' = [''75'', ''c'']" by (simp add: py_split_def py_isspace_def)
  have h3: "py_split ''75 c'' \<noteq> []" by (simp add: sp)
  have b: "''c'' \<in> set band_letters" by (simp add: band_letters_def)
  show ?thesis
    using rating_check_spec [OF h1 h3, of "\<lambda>v. []"] h1 sp b by simp
qed

text \<open>
  The claim as stated fails: the trailing token \<^verbatim>\<open>c\<close> is not one of the letters of
  \<^verbatim>\<open>list("ABCDEFG")\<close>, and the record validates without any error.
\<close>

theorem rating_check_lowercase_counterexample:
  "last (py_split ''75 c'') = ''c'' \<and> ''c'' \<notin> set (map (\<lambda>c. [c]) ''ABCDEFG'') \<and>
   validate_epc_record (\<lambda>v. [])
     [(''url'', PStr ''u''), (''id'', PStr ''1''), (''postCode'', PStr ''p''),
      (''address'', PStr ''a''), (''rating'', PStr ''75 c'')] = Inr (True, [])"
  by code_simp

text \<open>
  The no-break space separates tokens like any other whitespace: the rating
  \<^verbatim>\<open>75\<close>, no-break space, \<^verbatim>\<open>C\<close> has the band \<^verbatim>\<open>C\<close>.
\<close>

lemma rating_no_break_space_example:
  "validate_epc_record (\<lambda>v. [])
     [(''url'', PStr ''u''), (''id'', PStr ''1''), (''postCode'', PStr ''p''),
      (''address'', PStr ''a''), (''rating'', PStr (''75'' @ [CHR 0xA0] @ ''C''))] =
   Inr (True, [])"
  by code_simp

lemma strip_spaces: "\<forall>c\<in>set s. py_isspace c \<Longrightarrow> py_strip s = []"
proof -
  assume "\<forall>c\<in>set s. py_isspace c"
  then have d: "dropWhile py_isspace s = []" by (induction s) simp_all
  show ?thesis unfolding py_strip_def d by simp
qed

text \<open>
  Claim C10. For every record whose rating is a non-empty string of whitespace only,
  \<open>validate_epc_record\<close> returns no result: the stripped rating has no token and
  \<^verbatim>\<open>parts[-1]\<close> raises \<^verbatim>\<open>IndexError\<close>, which nothing in the function catches.
\<close>

theorem whitespace_rating_raises:
  assumes "dict_get record ''rating'' = PStr s" and "s \<noteq> []" and "\<forall>c\<in>set s. py_isspace c"
  shows "validate_epc_record repr record = Inl IndexError"
  using assms
  by (simp add: validate_epc_record_def check_rating_def Let_def py_str_PStr strip_spaces
      py_upper_Nil cp_split_def py_last_def)

theorem whitespace_rating_raises_witness:
  "dict_get [(''rating'', PStr [CHR '' '', CHR 0xA0])] ''rating'' = PStr [CHR '' '', CHR 0xA0] \<and>
   [CHR '' '', CHR 0xA0] \<noteq> [] \<and> py_isspace CHR '' '' \<and> py_isspace (CHR 0xA0) \<and>
   validate_epc_record (\<lambda>v. []) [(''rating'', PStr [CHR '' '', CHR 0xA0])] = Inl IndexError"
proof -
  have h1: "dict_get [(''rating'', PStr [CHR '' '', CHR 0xA0])] ''rating'' =
      PStr [CHR '' '', CHR 0xA0]"
    by (simp add: dict_get_def)
  have h2: "[CHR '' '', CHR 0xA0] \<noteq> []" by simp
  have sp: "py_isspace CHR '' ''" "py_isspace (CHR 0xA0)" by (simp_all add: py_isspace_def)
  then have h3: "\<forall>c\<in>set [CHR '' '', CHR 0xA0]. py_isspace c" by simp
  show ?thesis using whitespace_rating_raises [OF h1 h2 h3, of "\<lambda>v. []"] h1 sp by simp
qed

section \<open>Properties of deduplication\<close>

lemma record_key_anonymous:
  "record_key (dict_set ''id'' (anonymous_id n) r) = anonymous_id n"
  by (simp add: record_key_def dict_get_set anonymous_id_def)

lemma dedup_loop_closed:
  "\<forall>r\<in>set recs. hashable_id r \<Longrightarrow>
   dedup_loop recs seen n = Inr (fold seen_step (assign_ids n recs) seen)"
proof (induction recs arbitrary: seen n)
  case Nil
  then show ?case by simp
next
  case (Cons r rs)
  then have ih: "\<And>seen n. dedup_loop rs seen n = Inr (fold seen_step (assign_ids n rs) seen)"
    by simp
  from Cons.prems have h: "hashable_id r" by simp
  show ?case
  proof (cases "lacks_id r")
    case True
    let ?r = "dict_set ''id'' (anonymous_id (Suc n)) r"
    have "dedup_loop (r # rs) seen n = dedup_loop rs (dict_set (anonymous_id (Suc n)) ?r seen) (Suc n)"
      using True by (simp add: Let_def lacks_id_def anonymous_id_def)
    also have "\<dots> = Inr (fold seen_step (assign_ids (Suc n) rs) (seen_step ?r seen))"
      by (simp only: ih seen_step_def record_key_anonymous)
    also have "\<dots> = Inr (fold seen_step (assign_ids n (r # rs)) seen)"
      using True by simp
    finally show ?thesis .
  next
    case False
    have "dedup_loop (r # rs) seen n = dedup_loop rs (seen_step r seen) n"
      using False h
      by (simp add: Let_def lacks_id_def hashable_id_def seen_step_def record_key_def)
    also have "\<dots> = Inr (fold seen_step (assign_ids n rs) (seen_step r seen))"
      by (rule ih)
    also have "\<dots> = Inr (fold seen_step (assign_ids n (r # rs)) seen)"
      using False by simp
    finally show ?thesis .
  qed
qed

lemma length_assign_ids: "length (assign_ids n recs) = length recs"
  by (induction recs arbitrary: n) simp_all

lemma nth_assign_ids:
  "i < length recs \<Longrightarrow>
   assign_ids n recs ! i =
     (if lacks_id (recs ! i)
      then dict_set ''id'' (anonymous_id (n + length (filter lacks_id (take (Suc i) recs)))) (recs ! i)
      else recs ! i)"
proof (induction recs arbitrary: n i)
  case Nil
  then show ?case by simp
next
  case (Cons r rs)
  show ?case
  proof (cases i)
    case 0
    then show ?thesis by simp
  next
    case (Suc j)
    with Cons.prems have j: "j < length rs" by simp
    show ?thesis using Cons.IH [OF j] Suc by simp
  qed
qed

lemma map_of_dict_set: "map_of (dict_set k v d) = (map_of d)(k \<mapsto> v)"
  by (induction d) (auto simp: fun_eq_iff)

lemma keys_dict_set: "fst ` set (dict_set k v d) = insert k (fst ` set d)"
  by (induction d) auto

lemma distinct_dict_set: "distinct (map fst d) \<Longrightarrow> distinct (map fst (dict_set k v d))"
  by (induction d) (auto simp: keys_dict_set)

lemma set_dict_set: "set (dict_set k v d) \<subseteq> insert (k, v) (set d)"
  by (induction d) auto

lemma keyed_step: "keyed seen \<Longrightarrow> keyed (seen_step r seen)"
  unfolding keyed_def seen_step_def list_all_iff
  using set_dict_set [of "record_key r" r seen] by (auto simp: distinct_dict_set)

lemma keyed_fold: "keyed seen \<Longrightarrow> keyed (fold seen_step rs seen)"
  by (induction rs arbitrary: seen) (simp_all add: keyed_step)

lemma keyed_keys: "keyed seen \<Longrightarrow> map record_key (map snd seen) = map fst seen"
  by (simp add: keyed_def list_all_iff)

lemma map_of_fold:
  "map_of (fold seen_step rs seen) k = Some r \<longleftrightarrow>
     (\<exists>ys zs. rs = ys @ r # zs \<and> record_key r = k \<and> k \<notin> record_key ` set zs) \<or>
     (k \<notin> record_key ` set rs \<and> map_of seen k = Some r)"
proof (induction rs arbitrary: seen)
  case Nil
  then show ?case by simp
next
  case (Cons x xs)
  have "map_of (fold seen_step (x # xs) seen) k = Some r \<longleftrightarrow>
          (\<exists>ys zs. xs = ys @ r # zs \<and> record_key r = k \<and> k \<notin> record_key ` set zs) \<or>
          (k \<notin> record_key ` set xs \<and> map_of (seen_step x seen) k = Some r)"
    using Cons.IH [of "seen_step x seen"] by simp
  also have "\<dots> \<longleftrightarrow>
          (\<exists>ys zs. x # xs = ys @ r # zs \<and> record_key r = k \<and> k \<notin> record_key ` set zs) \<or>
          (k \<notin> record_key ` set (x # xs) \<and> map_of seen k = Some r)"
    by (auto simp: seen_step_def map_of_dict_set Cons_eq_append_conv)
  finally show ?case .
qed

lemma set_values: "distinct (map fst al) \<Longrightarrow> r \<in> snd ` set al \<longleftrightarrow> (\<exists>k. map_of al k = Some r)"
  by (force simp: image_iff)

text \<open>
  Claim C8. For every list of records whose truthy IDs can be hashed (strings, as the
  data model has them), \<open>deduplicate_records\<close> returns a list in which every ID occurs
  once. The records are first labelled: the
  \<open>k\<close>-th record that lacks an ID, in encounter order and counting from 1, receives the
  ID \<^verbatim>\<open>anonymous-k\<close>; a record with an ID is left as it is. A labelled record is in the
  output exactly when no later labelled record shares its ID: of the records that share
  an ID, the last one seen is kept.
\<close>

theorem deduplicate_records_spec:
  assumes "\<forall>r\<in>set recs. hashable_id r"
  shows "\<exists>out labelled.
           deduplicate_records recs = Inr out \<and>
           length labelled = length recs \<and>
           (\<forall>i<length recs.
              labelled ! i =
                (if lacks_id (recs ! i)
                 then dict_set ''id''
                        (anonymous_id (length (filter lacks_id (take (Suc i) recs)))) (recs ! i)
                 else recs ! i)) \<and>
           distinct (map record_key out) \<and>
           (\<forall>r. r \<in> set out \<longleftrightarrow>
                  (\<exists>ys zs. labelled = ys @ r # zs \<and> record_key r \<notin> record_key ` set zs))"
proof -
  let ?L = "assign_ids 0 recs"
  let ?seen = "fold seen_step ?L []"
  have k: "keyed ?seen" by (rule keyed_fold) (simp add: keyed_def)
  have out: "deduplicate_records recs = Inr (map snd ?seen)"
    by (simp add: deduplicate_records_def dedup_loop_closed [OF assms])
  have len: "length ?L = length recs" by (rule length_assign_ids)
  have lab: "\<forall>i<length recs.
      ?L ! i =
        (if lacks_id (recs ! i)
         then dict_set ''id''
                (anonymous_id (length (filter lacks_id (take (Suc i) recs)))) (recs ! i)
         else recs ! i)"
    using nth_assign_ids [of _ recs 0] by simp
  have dist: "distinct (map record_key (map snd ?seen))"
    using k by (simp only: keyed_keys) (simp add: keyed_def)
  have mem: "\<forall>r. r \<in> set (map snd ?seen) \<longleftrightarrow>
      (\<exists>ys zs. ?L = ys @ r # zs \<and> record_key r \<notin> record_key ` set zs)"
  proof
    fix r
    have "r \<in> set (map snd ?seen) \<longleftrightarrow> (\<exists>k. map_of ?seen k = Some r)"
      using k set_values [of ?seen r] by (simp add: keyed_def)
    also have "\<dots> \<longleftrightarrow> (\<exists>ys zs. ?L = ys @ r # zs \<and> record_key r \<notin> record_key ` set zs)"
      by (simp add: map_of_fold)
    finally show "r \<in> set (map snd ?seen) \<longleftrightarrow>
      (\<exists>ys zs. ?L = ys @ r # zs \<and> record_key r \<notin> record_key ` set zs)" .
  qed
  from out len lab dist mem show ?thesis by blast
qed

lemma dedup_example:
  "deduplicate_records
     [[(''id'', PStr ''abc''), (''rating'', PStr ''C'')], [(''rating'', PStr ''D'')],
      [(''id'', PStr ''abc''), (''rating'', PStr ''E'')]] =
   Inr [[(''id'', PStr ''abc''), (''rating'', PStr ''E'')],
        [(''rating'', PStr ''D''), (''id'', PStr ''anonymous-1'')]]"
  by code_simp

theorem deduplicate_records_spec_witness:
  "hashable_id [(''id'', PStr ''abc''), (''rating'', PStr ''C'')] \<and>
   hashable_id [(''rating'', PStr ''D'')] \<and>
   hashable_id [(''id'', PStr ''abc''), (''rating'', PStr ''E'')] \<and>
   deduplicate_records
     [[(''id'', PStr ''abc''), (''rating'', PStr ''C'')], [(''rating'', PStr ''D'')],
      [(''id'', PStr ''abc''), (''rating'', PStr ''E'')]] =
   Inr [[(''id'', PStr ''abc''), (''rating'', PStr ''E'')],
        [(''rating'', PStr ''D''), (''id'', PStr ''anonymous-1'')]] \<and>
   distinct (map record_key
     [[(''id'', PStr ''abc''), (''rating'', PStr ''E'')],
      [(''rating'', PStr ''D''), (''id'', PStr ''anonymous-1'')]])"
proof -
  let ?a = "[(''id'', PStr ''abc''), (''rating'', PStr ''C'')]"
  let ?b = "[(''rating'', PStr ''D'')]"
  let ?c = "[(''id'', PStr ''abc''), (''rating'', PStr ''E'')]"
  have ha: "hashable_id ?a" by (simp add: hashable_id_def dict_get_def)
  have hb: "hashable_id ?b" by (simp add: hashable_id_def dict_get_def)
  have hc: "hashable_id ?c" by (simp add: hashable_id_def dict_get_def)
  have h: "\<forall>r\<in>set [?a, ?b, ?c]. hashable_id r"
    using ha hb hc by simp
  from deduplicate_records_spec [OF h] obtain out where
    out: "deduplicate_records [?a, ?b, ?c] = Inr out" and d: "distinct (map record_key out)"
    by blast
  from out have "out = [?c, [(''rating'', PStr ''D''), (''id'', PStr ''anonymous-1'')]]"
    by (simp only: dedup_example sum.inject)
  with d ha hb hc dedup_example show ?thesis by blast
qed

section \<open>Properties of the listing parser\<close>

lemma py_startswith_iff: "py_startswith s p \<longleftrightarrow> (\<exists>ss. s = p @ ss)"
proof
  assume "py_startswith s p"
  then have "s = p @ drop (length p) s"
    unfolding py_startswith_def by (metis append_take_drop_id)
  then show "\<exists>ss. s = p @ ss" ..
next
  assume "\<exists>ss. s = p @ ss"
  then show "py_startswith s p" by (auto simp: py_startswith_def)
qed

lemma py_find_lower_bound: "- 1 \<le> py_find s sub"
  by (induction s) (simp_all add: Let_def)

lemma py_contains_iff: "py_contains sub s \<longleftrightarrow> (\<exists>ps ss. s = ps @ sub @ ss)"
  unfolding py_contains_def
proof (induction s)
  case Nil
  then show ?case by simp
next
  case (Cons c cs)
  show ?case
  proof (cases "py_startswith (c # cs) sub")
    case True
    then obtain ss where "c # cs = [] @ sub @ ss" by (auto simp: py_startswith_iff)
    then have "\<exists>ps ss. c # cs = ps @ sub @ ss" by blast
    with True show ?thesis by simp
  next
    case False
    have "(\<exists>ps ss. c # cs = ps @ sub @ ss) \<longleftrightarrow> (\<exists>ps ss. cs = ps @ sub @ ss)"
    proof
      assume "\<exists>ps ss. c # cs = ps @ sub @ ss"
      then obtain ps ss where e: "c # cs = ps @ sub @ ss" by blast
      show "\<exists>ps ss. cs = ps @ sub @ ss"
      proof (cases ps)
        case Nil
        with e False show ?thesis by (auto simp: py_startswith_iff)
      next
        case (Cons p ps')
        with e have "cs = ps' @ sub @ ss" by simp
        then show ?thesis by blast
      qed
    next
      assume "\<exists>ps ss. cs = ps @ sub @ ss"
      then obtain ps ss where "cs = ps @ sub @ ss" by blast
      then have "c # cs = (c # ps) @ sub @ ss" by simp
      then show "\<exists>ps ss. c # cs = ps @ sub @ ss" by blast
    qed
    with False Cons.IH show ?thesis by (auto simp: Let_def)
  qed
qed







text \<open>
  The fallback on a page without a matching anchor: the no-break space ends the token, and
  the href is what the token holds from \<^verbatim>\<open>/energy-certificate/\<close> on.
\<close>

lemma listing_fallback_example:
  "parse_listing_page (\<lambda>b h. b @ h)
     \<lparr>anchor_hrefs = [''/about''],
      page_text = ''see:/energy-certificate/1'' @ [CHR 0xA0] @ ''more'', elements = []\<rparr>
     ''https://mirror.example/search'' =
   [''https://find-energy-certificate.service.gov.uk/energy-certificate/1'']"
  by code_simp


section \<open>Properties of the table parsers\<close>

lemma truthy_cell_text:
  "py_truthy (cell_text cols i) \<longleftrightarrow> i < length cols \<and> snd (cols ! i) \<noteq> []"
  by (simp add: cell_text_def)

lemma list_ex_take:
  "list_ex P (take n xs) \<longleftrightarrow> (\<exists>i. i < n \<and> i < length xs \<and> P (xs ! i))"
proof
  assume "list_ex P (take n xs)"
  then obtain i where "i < length (take n xs)" and "P (take n xs ! i)"
    by (auto simp: list_ex_iff in_set_conv_nth)
  then have "i < n \<and> i < length xs \<and> P (xs ! i)" by simp
  then show "\<exists>i. i < n \<and> i < length xs \<and> P (xs ! i)" ..
next
  assume "\<exists>i. i < n \<and> i < length xs \<and> P (xs ! i)"
  then obtain i where i: "i < n" "i < length xs" "P (xs ! i)" by blast
  then have "i < length (take n xs)" and "take n xs ! i = xs ! i" by simp_all
  with i(3) have "\<exists>x\<in>set (take n xs). P x" by (metis nth_mem)
  then show "list_ex P (take n xs)" by (simp add: list_ex_iff)
qed

lemma lt3: "(\<exists>i<3. Q i) \<longleftrightarrow> Q 0 \<or> Q (Suc 0) \<or> Q (Suc (Suc 0))" for Q :: "nat \<Rightarrow> bool"
proof -
  have "\<And>i::nat. i < 3 \<longleftrightarrow> i = 0 \<or> i = Suc 0 \<or> i = Suc (Suc 0)" by arith
  then show ?thesis by auto
qed

lemma lt4:
  "(\<exists>i<4. Q i) \<longleftrightarrow> Q 0 \<or> Q (Suc 0) \<or> Q (Suc (Suc 0)) \<or> Q (Suc (Suc (Suc 0)))"
  for Q :: "nat \<Rightarrow> bool"
proof -
  have "\<And>i::nat. i < 4 \<longleftrightarrow> i = 0 \<or> i = Suc 0 \<or> i = Suc (Suc 0) \<or> i = Suc (Suc (Suc 0))"
    by arith
  then show ?thesis by auto
qed

lemma feature_kept_iff:
  "feature_kept cols \<longleftrightarrow>
     cols \<noteq> [] \<and> (py_truthy (cell_text cols 0) \<or> py_truthy (cell_text cols 1) \<or>
                   py_truthy (cell_text cols 2))"
  using lt3 [of "\<lambda>i. i < length cols \<and> snd (cols ! i) \<noteq> []"]
  by (simp add: feature_kept_def list_ex_take truthy_cell_text numeral_2_eq_2)

lemma change_kept_iff:
  "change_kept cols \<longleftrightarrow>
     cols \<noteq> [] \<and> (py_truthy (cell_text cols 0) \<or> py_truthy (cell_text cols 1) \<or>
                   py_truthy (cell_text cols 2) \<or> py_truthy (cell_text cols 3))"
  using lt4 [of "\<lambda>i. i < length cols \<and> snd (cols ! i) \<noteq> []"]
  by (simp add: change_kept_def list_ex_take truthy_cell_text numeral_2_eq_2 numeral_3_eq_3)

lemma feature_rows_closed:
  "feature_rows rows acc = acc @ map feature_record (filter feature_kept rows)"
  by (induction rows arbitrary: acc)
     (simp_all add: feature_kept_iff feature_record_def Let_def)

lemma change_rows_closed:
  "change_rows rows acc = acc @ map change_record (filter change_kept rows)"
  by (induction rows arbitrary: acc)
     (simp_all add: change_kept_iff change_record_def Let_def)

lemma has_feature_header_iff:
  "has_feature_header t \<longleftrightarrow>
     th_texts t \<noteq> [] \<and> list_ex (\<lambda>h. py_contains ''feature'' h) (th_texts t)"
  by (force simp: has_feature_header_def th_texts_def list_ex_iff filter_empty_conv)

lemma features_loop_closed:
  "features_loop ts acc = acc @ concat (map table_features ts)"
  by (induction ts arbitrary: acc)
     (auto simp: Let_def table_features_def has_feature_header_iff feature_rows_closed)

lemma case_take_2:
  "(case take 2 xs of [] \<Rightarrow> a | t # later \<Rightarrow> f t) = (case xs of [] \<Rightarrow> a | t # later \<Rightarrow> f t)"
  by (cases xs) (simp_all add: numeral_2_eq_2)

lemma changes_loop_closed:
  "changes_loop es acc = acc @ concat (map heading_changes (headings_with_tables es))"
proof (induction es arbitrary: acc)
  case Nil
  then show ?case by simp
next
  case (Cons e es)
  show ?case
  proof (cases e)
    case (Table t)
    then show ?thesis by (simp add: Cons.IH)
  next
    case (Heading lvl tx)
    then show ?thesis
      by (simp add: Cons.IH Let_def case_take_2 heading_changes_def changes_heading_def
          change_rows_closed split: list.splits)
  qed
qed

lemma py_contains_lower: "py_contains sub s \<Longrightarrow> py_contains (py_lower sub) (py_lower s)"
proof -
  assume "py_contains sub s"
  then obtain ps ss where "s = ps @ sub @ ss" by (auto simp: py_contains_iff)
  then have "py_lower s = py_lower ps @ py_lower sub @ py_lower ss"
    by (simp add: py_lower_def)
  then show ?thesis unfolding py_contains_iff by blast
qed

lemma lower_feature: "py_lower ''feature'' = ''feature''"
  by (simp add: py_lower_def lower_char_def)

lemma lower_improvement: "py_lower ''improvement'' = ''improvement''"
  by (simp add: py_lower_def lower_char_def)

lemma lower_recommended: "py_lower ''recommended measure'' = ''recommended measure''"
  by (simp add: py_lower_def lower_char_def)

text \<open>
  Claim C6, as amended. The features are, table after table, the records of the rows
  after the first row of every table with a feature header, each built from the first
  three cells of the row as name, description and rating (\<^verbatim>\<open>None\<close> for a missing cell).
  The rows skipped are those without a cell and those whose first three cells are all
  without text. A table whose first row has a \<^verbatim>\<open>th\<close> cell containing \<^verbatim>\<open>feature\<close>, in any
  case of the letters, has a feature header.
\<close>

theorem parse_features_spec:
  "parse_features page =
     concat (map (\<lambda>t. if has_feature_header t
                      then map feature_record (filter feature_kept (drop 1 t)) else [])
               (tables_of (elements page))) \<and>
   (\<forall>header rows c.
      c \<in> set header \<and> fst c = TH \<and>
      (py_contains ''feature'' (snd c) \<or> py_contains ''feature'' (py_lower (snd c))) \<longrightarrow>
      has_feature_header (header # rows))"
proof -
  have "table_features = (\<lambda>t. if has_feature_header t
                      then map feature_record (filter feature_kept (drop 1 t)) else [])"
    by (simp add: fun_eq_iff table_features_def)
  then have a: "parse_features page =
     concat (map (\<lambda>t. if has_feature_header t
                      then map feature_record (filter feature_kept (drop 1 t)) else [])
               (tables_of (elements page)))"
    by (simp add: parse_features_def features_loop_closed)
  have b: "has_feature_header (header # rows)"
    if "c \<in> set header" "fst c = TH"
       "py_contains ''feature'' (snd c) \<or> py_contains ''feature'' (py_lower (snd c))"
    for header rows c
  proof -
    from that(3) have "py_contains ''feature'' (py_lower (snd c))"
      using py_contains_lower [of "''feature''" "snd c"] by (auto simp: lower_feature)
    with that(1,2) show ?thesis
      by (auto simp: has_feature_header_def list_ex_iff)
  qed
  from a b show ?thesis by blast
qed

text \<open>
  Claim C5, as amended. The changes are, heading after heading, what every heading of
  level 2, 3 or 4 whose lower-cased text contains \<^verbatim>\<open>improvement\<close> or
  \<^verbatim>\<open>recommended measure\<close> contributes: nothing when no table follows it, and otherwise
  the records of the rows after the first row of the first table that follows it, and
  of no other table. A record is built from cells 0 to 3 of its row as name,
  installationCost, yearlySaving and potentialRating (\<^verbatim>\<open>None\<close> for a missing cell); the
  rows without a cell and the rows whose first four cells are all without text give no
  record.
\<close>

theorem parse_changes_spec:
  "parse_changes page =
     concat (map (\<lambda>(level, txt, following).
                    if changes_heading level txt
                    then (case following of
                            [] \<Rightarrow> []
                          | t # later \<Rightarrow> map change_record (filter change_kept (drop 1 t)))
                    else [])
               (headings_with_tables (elements page))) \<and>
   (\<forall>level txt.
      (level = 2 \<or> level = 3 \<or> level = 4) \<and>
      (py_contains ''improvement'' txt \<or> py_contains ''recommended measure'' txt \<or>
       py_contains ''improvement'' (py_lower txt) \<or>
       py_contains ''recommended measure'' (py_lower txt)) \<longrightarrow>
      changes_heading level txt)"
proof -
  have "heading_changes = (\<lambda>(level, txt, following).
                    if changes_heading level txt
                    then (case following of
                            [] \<Rightarrow> []
                          | t # later \<Rightarrow> map change_record (filter change_kept (drop 1 t)))
                    else [])"
    by (simp add: fun_eq_iff heading_changes_def)
  then have a: "parse_changes page =
     concat (map (\<lambda>(level, txt, following).
                    if changes_heading level txt
                    then (case following of
                            [] \<Rightarrow> []
                          | t # later \<Rightarrow> map change_record (filter change_kept (drop 1 t)))
                    else [])
               (headings_with_tables (elements page)))"
    by (simp add: parse_changes_def changes_loop_closed)
  have b: "changes_heading lvl tx"
    if "lvl = 2 \<or> lvl = 3 \<or> lvl = 4"
       "py_contains ''improvement'' tx \<or> py_contains ''recommended measure'' tx \<or>
        py_contains ''improvement'' (py_lower tx) \<or>
        py_contains ''recommended measure'' (py_lower tx)"
    for lvl tx
    using that py_contains_lower [of "''improvement''" tx]
      py_contains_lower [of "''recommended measure''" tx]
    by (auto simp: changes_heading_def lower_improvement lower_recommended)
  from a b show ?thesis by blast
qed

lemma features_example:
  "parse_features
     \<lparr>anchor_hrefs = [], page_text = [],
      elements = [Table [[(TH, ''Feature''), (TH, ''Description''), (TH, ''Rating'')],
                         [(TD, ''Wall''), (TD, ''Cavity wall''), (TD, ''Good'')],
                         [],
                         [(TD, []), (TD, [])],
                         [(TD, ''Roof'')]],
                  Table [[(TH, ''Measure'')], [(TD, ''Solar panels'')]]]\<rparr> =
   [[(''name'', PStr ''Wall''), (''description'', PStr ''Cavity wall''), (''rating'', PStr ''Good'')],
    [(''name'', PStr ''Roof''), (''description'', PNone), (''rating'', PNone)]]"
  by code_simp

text \<open>
  Claim C6 as stated fails: the second row of this feature table has a cell, and no
  feature record comes from it.
\<close>

theorem parse_features_skips_empty_text_counterexample:
  "[(TD, [])] \<noteq> [] \<and>
   parse_features
     \<lparr>anchor_hrefs = [], page_text = [],
      elements = [Table [[(TH, ''Feature'')], [(TD, [])]]]\<rparr> = []"
  by code_simp

text \<open>
  Claim C5 as stated fails: two rows follow the header row of this table, and one
  change record comes out.
\<close>

theorem parse_changes_skips_rows_counterexample:
  "length (drop 1 [[(TH, ''Measure''), (TH, ''Cost'')], [(TD, []), (TD, [])],
                   [(TD, ''Loft insulation''), (TD, ''300'')]]) = 2 \<and>
   parse_changes
     \<lparr>anchor_hrefs = [], page_text = [],
      elements = [Heading 2 ''Recommended improvements'',
                  Table [[(TH, ''Measure''), (TH, ''Cost'')], [(TD, []), (TD, [])],
                         [(TD, ''Loft insulation''), (TD, ''300'')]]]\<rparr> =
   [[(''name'', PStr ''Loft insulation''), (''installationCost'', PStr ''300''),
     (''yearlySaving'', PNone), (''potentialRating'', PNone)]]"
  by code_simp

lemma changes_example:
  "parse_changes
     \<lparr>anchor_hrefs = [], page_text = [],
      elements = [Heading 1 ''Energy performance certificate'',
                  Heading 2 ''Recommended improvements'',
                  Table [[(TH, ''Measure''), (TH, ''Cost'')], [(TD, []), (TD, [])],
                         [(TD, ''Loft insulation''), (TD, ''300'')]],
                  Table [[(TH, ''Measure'')], [(TD, ''Solar panels'')]]]\<rparr> =
   [[(''name'', PStr ''Loft insulation''), (''installationCost'', PStr ''300''),
     (''yearlySaving'', PNone), (''potentialRating'', PNone)]]"
  by code_simp

theorem parse_features_spec_witness:
  "(TH, ''Feature'') \<in> set [(TH, ''Feature''), (TH, ''Description''), (TH, ''Rating'')] \<and>
   py_contains ''feature'' (py_lower ''Feature'') \<and>
   has_feature_header
     [[(TH, ''Feature''), (TH, ''Description''), (TH, ''Rating'')],
      [(TD, ''Wall''), (TD, ''Cavity wall''), (TD, ''Good'')],
      [],
      [(TD, []), (TD, [])],
      [(TD, ''Roof'')]] \<and>
   parse_features
     \<lparr>anchor_hrefs = [], page_text = [],
      elements = [Table [[(TH, ''Feature''), (TH, ''Description''), (TH, ''Rating'')],
                         [(TD, ''Wall''), (TD, ''Cavity wall''), (TD, ''Good'')],
                         [],
                         [(TD, []), (TD, [])],
                         [(TD, ''Roof'')]],
                  Table [[(TH, ''Measure'')], [(TD, ''Solar panels'')]]]\<rparr> =
   [[(''name'', PStr ''Wall''), (''description'', PStr ''Cavity wall''), (''rating'', PStr ''Good'')],
    [(''name'', PStr ''Roof''), (''description'', PNone), (''rating'', PNone)]]"
proof -
  let ?header = "[(TH, ''Feature''), (TH, ''Description''), (TH, ''Rating'')]"
  have m: "(TH, ''Feature'') \<in> set ?header" by simp
  have c: "py_contains ''feature'' (py_lower ''Feature'')" by code_simp
  have "(TH, ''Feature'') \<in> set ?header \<and> fst (TH, ''Feature'') = TH \<and>
        (py_contains ''feature'' (snd (TH, ''Feature'')) \<or>
         py_contains ''feature'' (py_lower (snd (TH, ''Feature''))))"
    using c by simp
  with parse_features_spec [of "\<lparr>anchor_hrefs = [], page_text = [],
      elements = [Table [[(TH, ''Feature''), (TH, ''Description''), (TH, ''Rating'')],
                         [(TD, ''Wall''), (TD, ''Cavity wall''), (TD, ''Good'')],
                         [],
                         [(TD, []), (TD, [])],
                         [(TD, ''Roof'')]],
                  Table [[(TH, ''Measure'')], [(TD, ''Solar panels'')]]]\<rparr>"]
  have "has_feature_header (?header #
      [[(TD, ''Wall''), (TD, ''Cavity wall''), (TD, ''Good'')], [], [(TD, []), (TD, [])],
       [(TD, ''Roof'')]])"
    by blast
  with m c features_example show ?thesis by blast
qed

theorem parse_changes_spec_witness:
  "py_contains ''improvement'' ''Recommended improvements'' \<and>
   changes_heading 2 ''Recommended improvements'' \<and>
   parse_changes
     \<lparr>anchor_hrefs = [], page_text = [],
      elements = [Heading 1 ''Energy performance certificate'',
                  Heading 2 ''Recommended improvements'',
                  Table [[(TH, ''Measure''), (TH, ''Cost'')], [(TD, []), (TD, [])],
                         [(TD, ''Loft insulation''), (TD, ''300'')]],
                  Table [[(TH, ''Measure'')], [(TD, ''Solar panels'')]]]\<rparr> =
   [[(''name'', PStr ''Loft insulation''), (''installationCost'', PStr ''300''),
     (''yearlySaving'', PNone), (''potentialRating'', PNone)]]"
proof -
  have c: "py_contains ''improvement'' ''Recommended improvements''" by code_simp
  then have "((2::nat) = 2 \<or> (2::nat) = 3 \<or> (2::nat) = 4) \<and>
      (py_contains ''improvement'' ''Recommended improvements'' \<or>
       py_contains ''recommended measure'' ''Recommended improvements'' \<or>
       py_contains ''improvement'' (py_lower ''Recommended improvements'') \<or>
       py_contains ''recommended measure'' (py_lower ''Recommended improvements''))"
    by simp
  with parse_changes_spec [of "\<lparr>anchor_hrefs = [], page_text = [],
      elements = [Heading 1 ''Energy performance certificate'',
                  Heading 2 ''Recommended improvements'',
                  Table [[(TH, ''Measure''), (TH, ''Cost'')], [(TD, []), (TD, [])],
                         [(TD, ''Loft insulation''), (TD, ''300'')]],
                  Table [[(TH, ''Measure'')], [(TD, ''Solar panels'')]]]\<rparr>"]
  have "changes_heading 2 ''Recommended improvements''" by blast
  with c changes_example show ?thesis by blast
qed

end
